theory Spec2Isabelle
  imports Complex_Main "HOL-Library.Word"
begin

section \<open>The scenario program kpm-project-11-no-rem.cc\<close>

text \<open>
  The program is one \<open>main\<close> function. Its decision logic is embedded here block by
  block, in the order of the source: the scenario constants, the startup checks, the
  distribution of the user terminals over the two containers, the per-gNB
  configuration loop, the manual attachment loop, the per-flow statistics and the
  exit status. The scenario constants are local variables of \<open>main\<close>; they are kept
  as the fields of a record so that every block is a function of them, and
  \<open>builtin\<close> holds the values the source assigns.

  Unsigned machine integers are words of their width. A \<open>double\<close> is a value of the
  type \<open>dbl\<close> below where the program can produce an infinity or a NaN (the
  statistics), and a real number where it is a finite scenario constant.
\<close>

subsection \<open>Word arithmetic of the loop counters\<close>

lemma word_inc_unat:
  fixes j n :: "'a::len word"
  assumes "j < n"
  shows "unat (j + 1) = Suc (unat j)"
proof -
  have "unat j < unat n" using assms by (simp add: word_less_nat_alt)
  moreover have "unat n < 2 ^ LENGTH('a)" by (rule unsigned_less)
  ultimately have "unat j + 1 < 2 ^ LENGTH('a)" by linarith
  then show ?thesis by (simp add: unat_word_ariths)
qed

subsection \<open>Scenario constants (source lines 72-104)\<close>

record scenario =
  numGnb :: "16 word"
  numUePerGnb :: "16 word"
  totalUesCall :: "32 word"
  totalUesBrowse :: "32 word"
  numerologyBwp1 :: "16 word"
  centralFrequencyBand1 :: real
  bandwidthBand1 :: real
  totalTxPower :: real
  numerologyBwp2 :: "16 word"
  centralFrequencyBand2 :: real
  bandwidthBand2 :: real

definition builtin :: scenario where
  "builtin = \<lparr>numGnb = 3, numUePerGnb = 2, totalUesCall = 2, totalUesBrowse = 3,
              numerologyBwp1 = 4, centralFrequencyBand1 = 28000000000,
              bandwidthBand1 = 50000000, totalTxPower = 35,
              numerologyBwp2 = 2, centralFrequencyBand2 = 28200000000,
              bandwidthBand2 = 50000000\<rparr>"

text \<open>
  \<open>uint32_t numTotalUe = numGnb * numUePerGnb\<close>: both factors are 16 bits wide, so the
  product is below \<open>2 ^ 32\<close> and the 32-bit multiplication never wraps.
\<close>

definition numTotalUe :: "scenario \<Rightarrow> 32 word" where
  "numTotalUe sc = ucast (numGnb sc) * ucast (numUePerGnb sc)"

subsection \<open>Startup checks (source lines 119-126)\<close>

text \<open>
  \<open>NS_ABORT_IF\<close> terminates the process when its condition holds. The four macros are
  the four tests below, in the order of the source, each with the source's own
  connectives.
\<close>

datatype abort = Aborted

definition startup_checks :: "scenario \<Rightarrow> abort + unit" where
  "startup_checks sc =
     (if centralFrequencyBand1 sc = centralFrequencyBand2 sc then Inl Aborted
      else if centralFrequencyBand1 sc < 2000000000 \<and> centralFrequencyBand1 sc > 100000000000
        then Inl Aborted
      else if centralFrequencyBand2 sc < 2000000000 \<and> centralFrequencyBand2 sc > 100000000000
        then Inl Aborted
      else if numTotalUe sc < 5 \<or> numGnb sc < 2 then Inl Aborted
      else Inr ())"

subsection \<open>Containers of the simulator\<close>

text \<open>
  A node or device container is a vector. \<open>GetN\<close> returns its size as a \<open>uint32_t\<close>;
  \<open>Get\<close> indexes the vector without a bounds check, so a read past the end has no
  defined result. The model makes that read a fault.
\<close>

datatype fault = OutOfRange

definition GetN :: "'a list \<Rightarrow> 32 word" where
  "GetN xs = of_nat (length xs)"

definition Get :: "'a list \<Rightarrow> 32 word \<Rightarrow> fault + 'a" where
  "Get xs i = (if unat i < length xs then Inr (xs ! unat i) else Inl OutOfRange)"

subsection \<open>Distribution of the user terminals (source lines 177-202)\<close>

record 'n pools =
  uePhoneCallContainer :: "'n list"
  ueBrowsingWebContainer :: "'n list"
  ueCountForVoice :: "32 word"
  ueCountForBrowsing :: "32 word"

definition empty_pools :: "'n pools" where
  "empty_pools = \<lparr>uePhoneCallContainer = [], ueBrowsingWebContainer = [],
                   ueCountForVoice = 0, ueCountForBrowsing = 0\<rparr>"

text \<open>The \<open>for\<close> loop over \<open>j\<close>, from the value of \<open>j\<close> and the containers reached so far.\<close>

function distribute_loop :: "'n list \<Rightarrow> 32 word \<Rightarrow> 'n pools \<Rightarrow> fault + 'n pools" where
  "distribute_loop uts j p =
     (if j < GetN uts then
        (case Get uts j of
           Inl e \<Rightarrow> Inl e
         | Inr ue \<Rightarrow>
             distribute_loop uts (j + 1)
               (if j mod 2 = 0
                then p\<lparr>uePhoneCallContainer := uePhoneCallContainer p @ [ue],
                       ueCountForVoice := ueCountForVoice p + 1\<rparr>
                else p\<lparr>ueBrowsingWebContainer := ueBrowsingWebContainer p @ [ue],
                       ueCountForBrowsing := ueCountForBrowsing p + 1\<rparr>))
      else Inr p)"
  by pat_completeness auto
termination
  by (relation "measure (\<lambda>(uts, j, p). unat (GetN uts) - unat j)")
     (simp_all add: word_inc_unat word_less_nat_alt)

definition distribute :: "'n list \<Rightarrow> fault + 'n pools" where
  "distribute uts = distribute_loop uts 0 empty_pools"

subsection \<open>Transmit power and numerology of the gNBs (source lines 278-283, 386-404)\<close>

text \<open>
  \<open>x = pow(10, totalTxPower / 10)\<close> and \<open>totalBandwidth\<close> is the sum of the two
  bandwidths. Inside the loop the source computes one value \<open>txPower\<close>, from
  \<open>bandwidthBand1\<close>, and uses it for both bandwidth parts. The value is taken as a
  real number, which is what the source computes, up to rounding, when both
  bandwidths are positive.
\<close>

definition totalBandwidth :: "scenario \<Rightarrow> real" where
  "totalBandwidth sc = bandwidthBand1 sc + bandwidthBand2 sc"

definition txPower :: "scenario \<Rightarrow> real" where
  "txPower sc =
     10 * log 10 ((bandwidthBand1 sc / totalBandwidth sc) * (10 powr (totalTxPower sc / 10)))"

text \<open>
  The attributes the program writes on the PHY of a bandwidth part of a gNB: \<open>None\<close>
  is an attribute the program has not written (it keeps the value the installer gave
  it). The store maps (index of the gNB in \<open>gnbNetDev\<close>, bandwidth part id) to these.
\<close>

record phy =
  Numerology :: "16 word option"
  TxPower :: "real option"

type_synonym phy_store = "nat \<times> nat \<Rightarrow> phy"

definition installed :: phy_store where
  "installed = (\<lambda>_. \<lparr>Numerology = None, TxPower = None\<rparr>)"

definition SetNumerology :: "nat \<times> nat \<Rightarrow> 16 word \<Rightarrow> phy_store \<Rightarrow> phy_store" where
  "SetNumerology k v st = st(k := (st k)\<lparr>Numerology := Some v\<rparr>)"

definition SetTxPower :: "nat \<times> nat \<Rightarrow> real \<Rightarrow> phy_store \<Rightarrow> phy_store" where
  "SetTxPower k v st = st(k := (st k)\<lparr>TxPower := Some v\<rparr>)"

text \<open>
  The body of the loop, its four statements in order: the numerology of part 0 goes
  to \<open>gnbNetDev.Get(i)\<close>, the power of part 0 to \<open>gnbNetDev.Get(0)\<close>, numerology and
  power of part 1 to \<open>gnbNetDev.Get(i)\<close>.
\<close>

definition gnb_body :: "scenario \<Rightarrow> 32 word \<Rightarrow> phy_store \<Rightarrow> phy_store" where
  "gnb_body sc i st =
     (let p = txPower sc;
          st1 = SetNumerology (unat i, 0) (numerologyBwp1 sc) st;
          st2 = SetTxPower (0, 0) p st1;
          st3 = SetNumerology (unat i, 1) (numerologyBwp2 sc) st2
      in SetTxPower (unat i, 1) p st3)"

function gnb_loop :: "scenario \<Rightarrow> 32 word \<Rightarrow> 32 word \<Rightarrow> phy_store \<Rightarrow> phy_store" where
  "gnb_loop sc n i st = (if i < n then gnb_loop sc n (i + 1) (gnb_body sc i st) else st)"
  by pat_completeness auto
termination
  by (relation "measure (\<lambda>(sc, n, i, st). unat n - unat i)")
     (simp_all add: word_inc_unat word_less_nat_alt)

text \<open>\<open>gnbNetDev\<close> holds one device per base station of the grid, \<open>numGnb\<close> of them.\<close>

definition configure_gnbs :: "scenario \<Rightarrow> phy_store" where
  "configure_gnbs sc = gnb_loop sc (ucast (numGnb sc)) 0 installed"

subsection \<open>Manual attachment (source lines 485-521)\<close>

datatype traffic_class = Voice | Browsing

text \<open>
  What the loop does to the simulator, in order: \<open>Attach c k d b\<close> is the call
  \<open>AttachToGnb\<close> of the device \<open>d\<close> read at index \<open>k\<close> of the pool of class \<open>c\<close> to the
  gNB of index \<open>b\<close>; \<open>Skip c k d b\<close> is the warning of a skipped slot, which reads the
  pool of class \<open>c\<close> at index \<open>k\<close>.
\<close>

datatype 'd attach_event =
  Attach traffic_class nat 'd nat
| Skip traffic_class nat 'd nat

record 'd attach_state =
  callIndex :: "32 word"
  browseIndex :: "32 word"
  events :: "'d attach_event list"

definition attach_init :: "'d attach_state" where
  "attach_init = \<lparr>callIndex = 0, browseIndex = 0, events = []\<rparr>"

text \<open>
  One slot \<open>j\<close> of the gNB \<open>i\<close>. A fault carries the state in which it happened.
  \<open>vs\<close> is \<open>uePhoneCallNetDev\<close> and \<open>bs\<close> is \<open>ueBrowsingWebNetDev\<close>. The warning of a
  skipped slot is evaluated, and reads the pool at the current index: the program
  enables the log of its component at level INFO, which includes the warnings.
\<close>

definition attach_slot ::
  "scenario \<Rightarrow> 'd list \<Rightarrow> 'd list \<Rightarrow> 32 word \<Rightarrow> 32 word \<Rightarrow> 'd attach_state
     \<Rightarrow> fault \<times> 'd attach_state + 'd attach_state" where
  "attach_slot sc vs bs i j st =
     (if j mod 2 = 0 then
        (if callIndex st < totalUesCall sc then
           (case Get vs (callIndex st) of
              Inl f \<Rightarrow> Inl (f, st)
            | Inr d \<Rightarrow>
                Inr (st\<lparr>callIndex := callIndex st + 1,
                        events := events st @ [Attach Voice (unat (callIndex st)) d (unat i)]\<rparr>))
         else
           (case Get vs (callIndex st) of
              Inl f \<Rightarrow> Inl (f, st)
            | Inr d \<Rightarrow>
                Inr (st\<lparr>events := events st @ [Skip Voice (unat (callIndex st)) d (unat i)]\<rparr>)))
      else
        (if browseIndex st < totalUesBrowse sc then
           (case Get bs (browseIndex st) of
              Inl f \<Rightarrow> Inl (f, st)
            | Inr d \<Rightarrow>
                Inr (st\<lparr>browseIndex := browseIndex st + 1,
                        events := events st @ [Attach Browsing (unat (browseIndex st)) d (unat i)]\<rparr>))
         else
           (case Get bs (browseIndex st) of
              Inl f \<Rightarrow> Inl (f, st)
            | Inr d \<Rightarrow>
                Inr (st\<lparr>events := events st @ [Skip Browsing (unat (browseIndex st)) d (unat i)]\<rparr>))))"

function attach_slots ::
  "scenario \<Rightarrow> 'd list \<Rightarrow> 'd list \<Rightarrow> 32 word \<Rightarrow> 32 word \<Rightarrow> 'd attach_state
     \<Rightarrow> fault \<times> 'd attach_state + 'd attach_state" where
  "attach_slots sc vs bs i j st =
     (if j < ucast (numUePerGnb sc) then
        (case attach_slot sc vs bs i j st of
           Inl x \<Rightarrow> Inl x
         | Inr st' \<Rightarrow> attach_slots sc vs bs i (j + 1) st')
      else Inr st)"
  by pat_completeness auto
termination
  by (relation "measure (\<lambda>(sc, vs, bs, i, j, st). unat (ucast (numUePerGnb sc) :: 32 word) - unat j)")
     (simp_all add: word_inc_unat word_less_nat_alt)

function attach_gnbs ::
  "scenario \<Rightarrow> 'd list \<Rightarrow> 'd list \<Rightarrow> 32 word \<Rightarrow> 32 word \<Rightarrow> 'd attach_state
     \<Rightarrow> fault \<times> 'd attach_state + 'd attach_state" where
  "attach_gnbs sc vs bs n i st =
     (if i < n then
        (case attach_slots sc vs bs i 0 st of
           Inl x \<Rightarrow> Inl x
         | Inr st' \<Rightarrow> attach_gnbs sc vs bs n (i + 1) st')
      else Inr st)"
  by pat_completeness auto
termination
  by (relation "measure (\<lambda>(sc, vs, bs, n, i, st). unat n - unat i)")
     (simp_all add: word_inc_unat word_less_nat_alt)

text \<open>The whole loop over \<open>n\<close> gNB devices, from \<open>callIndex = browseIndex = 0\<close>.\<close>

definition attach_all ::
  "scenario \<Rightarrow> 'd list \<Rightarrow> 'd list \<Rightarrow> 32 word \<Rightarrow> fault \<times> 'd attach_state + 'd attach_state" where
  "attach_all sc vs bs n = attach_gnbs sc vs bs n 0 attach_init"

text \<open>The state the loop reached, at its end or at the fault that stopped it.\<close>

definition reached :: "fault \<times> 'd attach_state + 'd attach_state \<Rightarrow> 'd attach_state" where
  "reached r = (case r of Inl (f, st) \<Rightarrow> st | Inr st \<Rightarrow> st)"

text \<open>
  Readings of the events: the pool indices of a class that were attached, the gNBs
  to which the index \<open>k\<close> of a class was attached, and the pool indices of a class
  read by the warnings of skipped slots.
\<close>

fun attached :: "traffic_class \<Rightarrow> 'd attach_event list \<Rightarrow> nat list" where
  "attached c [] = []"
| "attached c (Attach c' k d b # es) = (if c' = c then k # attached c es else attached c es)"
| "attached c (Skip c' k d b # es) = attached c es"

fun attached_to :: "traffic_class \<Rightarrow> nat \<Rightarrow> 'd attach_event list \<Rightarrow> nat list" where
  "attached_to c k [] = []"
| "attached_to c k (Attach c' k' d b # es) =
     (if c' = c \<and> k' = k then b # attached_to c k es else attached_to c k es)"
| "attached_to c k (Skip c' k' d b # es) = attached_to c k es"

fun skipped :: "traffic_class \<Rightarrow> 'd attach_event list \<Rightarrow> nat list" where
  "skipped c [] = []"
| "skipped c (Attach c' k d b # es) = skipped c es"
| "skipped c (Skip c' k d b # es) = (if c' = c then k # skipped c es else skipped c es)"

text \<open>
  The loop invariant: neither index passes its quota, the attached indices of a class
  are exactly those below the class's index, in order, and every skipped slot read
  the pool at the quota.
\<close>

definition attach_inv :: "scenario \<Rightarrow> 'd attach_state \<Rightarrow> bool" where
  "attach_inv sc st =
     (callIndex st \<le> totalUesCall sc \<and> browseIndex st \<le> totalUesBrowse sc \<and>
      attached Voice (events st) = [0..<unat (callIndex st)] \<and>
      attached Browsing (events st) = [0..<unat (browseIndex st)] \<and>
      set (skipped Voice (events st)) \<subseteq> {unat (totalUesCall sc)} \<and>
      set (skipped Browsing (events st)) \<subseteq> {unat (totalUesBrowse sc)})"

subsection \<open>Doubles of the statistics\<close>

text \<open>
  The statistics divide by counters that can be zero, so their doubles need the
  infinities and NaN of IEEE 754. A finite double is taken as the real number it
  stands for: rounding and overflow are not modelled, and neither is the sign of
  zero (every zero divisor of the program is a converted unsigned integer, a
  positive zero). A division also reports the IEEE exceptions it signals: invalid
  operation for \<open>0/0\<close> and \<open>inf/inf\<close>, division by zero for a finite non-zero
  dividend over zero.
\<close>

datatype dbl = Finite real | PInf | NInf | NaN

datatype fp_exception = FE_INVALID | FE_DIVBYZERO

fun dbl_add :: "dbl \<Rightarrow> dbl \<Rightarrow> dbl" where
  "dbl_add (Finite a) (Finite b) = Finite (a + b)"
| "dbl_add NaN y = NaN"
| "dbl_add x NaN = NaN"
| "dbl_add PInf NInf = NaN"
| "dbl_add NInf PInf = NaN"
| "dbl_add PInf y = PInf"
| "dbl_add x PInf = PInf"
| "dbl_add NInf y = NInf"
| "dbl_add x NInf = NInf"

fun dbl_mul :: "dbl \<Rightarrow> dbl \<Rightarrow> dbl" where
  "dbl_mul (Finite a) (Finite b) = Finite (a * b)"
| "dbl_mul NaN y = NaN"
| "dbl_mul x NaN = NaN"
| "dbl_mul PInf (Finite b) = (if b = 0 then NaN else if 0 < b then PInf else NInf)"
| "dbl_mul NInf (Finite b) = (if b = 0 then NaN else if 0 < b then NInf else PInf)"
| "dbl_mul (Finite a) PInf = (if a = 0 then NaN else if 0 < a then PInf else NInf)"
| "dbl_mul (Finite a) NInf = (if a = 0 then NaN else if 0 < a then NInf else PInf)"
| "dbl_mul PInf PInf = PInf"
| "dbl_mul NInf NInf = PInf"
| "dbl_mul PInf NInf = NInf"
| "dbl_mul NInf PInf = NInf"

fun fp_div :: "dbl \<Rightarrow> dbl \<Rightarrow> dbl \<times> fp_exception set" where
  "fp_div (Finite a) (Finite b) =
     (if b = 0 then
        (if a = 0 then (NaN, {FE_INVALID})
         else if 0 < a then (PInf, {FE_DIVBYZERO})
         else (NInf, {FE_DIVBYZERO}))
      else (Finite (a / b), {}))"
| "fp_div NaN y = (NaN, {})"
| "fp_div x NaN = (NaN, {})"
| "fp_div (Finite a) y = (Finite 0, {})"
| "fp_div PInf (Finite b) = (if b < 0 then (NInf, {}) else (PInf, {}))"
| "fp_div NInf (Finite b) = (if b < 0 then (PInf, {}) else (NInf, {}))"
| "fp_div x y = (NaN, {FE_INVALID})"

text \<open>The comparisons \<open><=\<close> and \<open><\<close> of doubles: false as soon as an operand is NaN.\<close>

fun dbl_le :: "dbl \<Rightarrow> dbl \<Rightarrow> bool" where
  "dbl_le (Finite a) (Finite b) = (a \<le> b)"
| "dbl_le NaN y = False"
| "dbl_le x NaN = False"
| "dbl_le NInf y = True"
| "dbl_le x PInf = True"
| "dbl_le x y = False"

fun dbl_less :: "dbl \<Rightarrow> dbl \<Rightarrow> bool" where
  "dbl_less (Finite a) (Finite b) = (a < b)"
| "dbl_less NaN y = False"
| "dbl_less x NaN = False"
| "dbl_less PInf y = False"
| "dbl_less x NInf = False"
| "dbl_less x y = True"

text \<open>Conversion of an unsigned integer to \<open>double\<close>.\<close>

definition of_uint :: "'w::len word \<Rightarrow> dbl" where
  "of_uint w = Finite (real (unat w))"

text \<open>One operation after another, collecting the exceptions of both.\<close>

definition fp_then ::
  "dbl \<times> fp_exception set \<Rightarrow> (dbl \<Rightarrow> dbl \<times> fp_exception set) \<Rightarrow> dbl \<times> fp_exception set" where
  "fp_then m f = (case m of (x, e) \<Rightarrow> (case f x of (y, e') \<Rightarrow> (y, e \<union> e')))"

subsection \<open>Per-flow statistics (source lines 690-759)\<close>

text \<open>
  The counters of a flow as the flow monitor gives them: packet counters of 32 bits,
  byte counters of 64 bits, and the two sums of times, already in seconds
  (\<open>GetSeconds\<close>).
\<close>

record FlowStats =
  txPackets :: "32 word"
  rxPackets :: "32 word"
  txBytes :: "64 word"
  rxBytes :: "64 word"
  delaySum :: real
  jitterSum :: real

text \<open>\<open>txPackets - rxPackets\<close>, on the unsigned type of the counters.\<close>

definition lost_packets :: "'w::len word \<Rightarrow> 'w word \<Rightarrow> 'w word" where
  "lost_packets tx rx = tx - rx"

text \<open>\<open>(((txPackets - rxPackets) * 1.0) / txPackets) * 100\<close>\<close>

definition packet_loss :: "'w::len word \<Rightarrow> 'w word \<Rightarrow> dbl \<times> fp_exception set" where
  "packet_loss tx rx =
     fp_then (fp_div (dbl_mul (of_uint (tx - rx)) (Finite 1)) (of_uint tx))
       (\<lambda>q. (dbl_mul q (Finite 100), {}))"

text \<open>\<open>bytes * 8.0 / flowDuration / 1000 / 1000\<close>, of \<open>txBytes\<close> and of \<open>rxBytes\<close>.\<close>

definition mbps :: "real \<Rightarrow> 64 word \<Rightarrow> dbl \<times> fp_exception set" where
  "mbps flowDuration bytes =
     fp_then (fp_then (fp_div (dbl_mul (of_uint bytes) (Finite 8)) (Finite flowDuration))
                (\<lambda>a. fp_div a (Finite 1000)))
       (\<lambda>b. fp_div b (Finite 1000))"

text \<open>\<open>1000 * sum.GetSeconds() / rxPackets\<close>, of \<open>delaySum\<close> and of \<open>jitterSum\<close>.\<close>

definition per_packet_ms :: "real \<Rightarrow> 32 word \<Rightarrow> dbl \<times> fp_exception set" where
  "per_packet_ms seconds rx = fp_div (dbl_mul (Finite 1000) (Finite seconds)) (of_uint rx)"

text \<open>The numbers the loop writes for one flow.\<close>

record flow_block =
  TxOffered :: dbl
  LostPackets :: "32 word"
  PacketLoss :: dbl
  Throughput :: dbl
  MeanDelay :: dbl
  MeanJitter :: dbl

record flow_acc =
  averageFlowThroughput :: dbl
  averageFlowDelay :: dbl
  written :: "flow_block list"
  raised :: "fp_exception set"

definition flow_acc0 :: flow_acc where
  "flow_acc0 = \<lparr>averageFlowThroughput = Finite 0, averageFlowDelay = Finite 0,
                 written = [], raised = {}\<rparr>"

text \<open>
  The body of the loop over the flows. The only test is \<open>rxPackets > 0\<close>; the lines of
  the lost packets and of the packet loss come before it and are written for every
  flow.
\<close>

definition flow_body :: "real \<Rightarrow> FlowStats \<Rightarrow> flow_acc \<Rightarrow> flow_acc" where
  "flow_body flowDuration fs acc =
     (case mbps flowDuration (txBytes fs) of (offered, e1) \<Rightarrow>
      case packet_loss (txPackets fs) (rxPackets fs) of (loss, e2) \<Rightarrow>
      if rxPackets fs > 0 then
        (case mbps flowDuration (rxBytes fs) of (thr, e3) \<Rightarrow>
         case per_packet_ms (delaySum fs) (rxPackets fs) of (dly, e4) \<Rightarrow>
         case per_packet_ms (jitterSum fs) (rxPackets fs) of (jit, e5) \<Rightarrow>
           \<lparr>averageFlowThroughput = dbl_add (averageFlowThroughput acc) thr,
            averageFlowDelay = dbl_add (averageFlowDelay acc) dly,
            written = written acc @
              [\<lparr>TxOffered = offered,
                LostPackets = lost_packets (txPackets fs) (rxPackets fs),
                PacketLoss = loss, Throughput = thr, MeanDelay = dly, MeanJitter = jit\<rparr>],
            raised = raised acc \<union> e1 \<union> e2 \<union> e3 \<union> e4 \<union> e5\<rparr>)
      else
        \<lparr>averageFlowThroughput = averageFlowThroughput acc,
         averageFlowDelay = averageFlowDelay acc,
         written = written acc @
           [\<lparr>TxOffered = offered,
             LostPackets = lost_packets (txPackets fs) (rxPackets fs),
             PacketLoss = loss, Throughput = Finite 0, MeanDelay = Finite 0,
             MeanJitter = Finite 0\<rparr>],
         raised = raised acc \<union> e1 \<union> e2\<rparr>)"

fun flow_loop :: "real \<Rightarrow> FlowStats list \<Rightarrow> flow_acc \<Rightarrow> flow_acc" where
  "flow_loop flowDuration [] acc = acc"
| "flow_loop flowDuration (fs # rest) acc = flow_loop flowDuration rest (flow_body flowDuration fs acc)"

text \<open>
  After the loop: \<open>meanFlowThroughput = averageFlowThroughput / stats.size()\<close> and
  \<open>meanFlowDelay = averageFlowDelay / stats.size()\<close>.
\<close>

record statistics =
  blocks :: "flow_block list"
  meanFlowThroughput :: dbl
  meanFlowDelay :: dbl
  fp_raised :: "fp_exception set"

definition flow_statistics :: "real \<Rightarrow> FlowStats list \<Rightarrow> statistics" where
  "flow_statistics flowDuration stats =
     (let acc = flow_loop flowDuration stats flow_acc0 in
      case fp_div (averageFlowThroughput acc) (Finite (real (length stats))) of (mt, e1) \<Rightarrow>
      case fp_div (averageFlowDelay acc) (Finite (real (length stats))) of (md, e2) \<Rightarrow>
        \<lparr>blocks = written acc, meanFlowThroughput = mt, meanFlowDelay = md,
         fp_raised = raised acc \<union> e1 \<union> e2\<rparr>)"

subsection \<open>Exit status (source lines 693-700 and 772-809)\<close>

definition EXIT_SUCCESS :: int where
  "EXIT_SUCCESS = 0"

definition EXIT_FAILURE :: int where
  "EXIT_FAILURE = 1"

text \<open>The chain of tests on \<open>argc\<close> at the end of \<open>main\<close>, with the constants of the source.\<close>

definition regression_exit :: "int \<Rightarrow> 16 word \<Rightarrow> dbl \<Rightarrow> dbl \<Rightarrow> int" where
  "regression_exit argc nUePerGnb thr dly =
     (if argc = 0 then
        (let toleranceMeanFlowThroughput = 0.0001 * 56.258560;
             toleranceMeanFlowDelay = 0.0001 * 0.553292
         in if dbl_le (Finite (56.258560 - toleranceMeanFlowThroughput)) thr \<and>
               dbl_le thr (Finite (56.258560 + toleranceMeanFlowThroughput)) \<and>
               dbl_le (Finite (0.553292 - toleranceMeanFlowDelay)) dly \<and>
               dbl_le dly (Finite (0.553292 + toleranceMeanFlowDelay))
            then EXIT_SUCCESS else EXIT_FAILURE)
      else if argc = 1 \<and> nUePerGnb = 9 then
        (let toleranceMeanFlowThroughput = 0.0001 * 47.858536;
             toleranceMeanFlowDelay = 0.0001 * 10.504189
         in if dbl_le (Finite (47.858536 - toleranceMeanFlowThroughput)) thr \<and>
               dbl_le thr (Finite (47.858536 + toleranceMeanFlowThroughput)) \<and>
               dbl_le (Finite (10.504189 - toleranceMeanFlowDelay)) dly \<and>
               dbl_le dly (Finite (10.504189 + toleranceMeanFlowDelay))
            then EXIT_SUCCESS else EXIT_FAILURE)
      else EXIT_SUCCESS)"

text \<open>
  The end of \<open>main\<close> from the opening of the output file: \<open>return 1\<close> when the file is
  not open, otherwise the statistics and the chain of tests.
\<close>

definition report_exit :: "bool \<Rightarrow> int \<Rightarrow> scenario \<Rightarrow> real \<Rightarrow> FlowStats list \<Rightarrow> int" where
  "report_exit is_open argc sc flowDuration stats =
     (if \<not> is_open then 1
      else regression_exit argc (numUePerGnb sc)
             (meanFlowThroughput (flow_statistics flowDuration stats))
             (meanFlowDelay (flow_statistics flowDuration stats)))"

text \<open>
  The words of the specification, to compare the code with: the baseline that is
  configured, if any, as its two reference values, and a value within the relative
  tolerance of 0.01 percent around a reference.
\<close>

definition spec_baseline :: "int \<Rightarrow> 16 word \<Rightarrow> (real \<times> real) option" where
  "spec_baseline argc nUePerGnb =
     (if argc = 0 then Some (56.258560, 0.553292)
      else if argc = 1 \<and> nUePerGnb = 9 then Some (47.858536, 10.504189)
      else None)"

definition spec_in_band :: "real \<Rightarrow> dbl \<Rightarrow> bool" where
  "spec_in_band ref v = (case v of Finite x \<Rightarrow> \<bar>x - ref\<bar> \<le> 0.0001 * ref | _ \<Rightarrow> False)"

section \<open>Properties\<close>

subsection \<open>Distribution of the user terminals\<close>

lemma unat_GetN: "length xs < 2 ^ 32 \<Longrightarrow> unat (GetN xs) = length xs"
  by (simp add: GetN_def unat_of_nat)

lemma word_mod2_even: "((j::32 word) mod 2 = 0) = even (unat j)"
proof -
  have "(j mod 2 = 0) = (unat (j mod 2) = 0)" by (simp add: unat_eq_0)
  also have "\<dots> = (unat j mod 2 = 0)" by (simp add: unat_mod)
  finally show ?thesis by presburger
qed

text \<open>
  From any \<open>j\<close> the loop returns, and it has appended the terminals of the even
  positions from \<open>j\<close> on to the voice container and those of the odd positions to the
  browsing container.
\<close>

lemma distribute_loop_from:
  "length uts < 2 ^ 32 \<Longrightarrow> unat j \<le> length uts \<Longrightarrow>
    distribute_loop uts j p =
      Inr (p\<lparr>uePhoneCallContainer :=
                uePhoneCallContainer p @ map (nth uts) (filter even [unat j..<length uts]),
              ueBrowsingWebContainer :=
                ueBrowsingWebContainer p @ map (nth uts) (filter odd [unat j..<length uts]),
              ueCountForVoice :=
                ueCountForVoice p + of_nat (length (filter even [unat j..<length uts])),
              ueCountForBrowsing :=
                ueCountForBrowsing p + of_nat (length (filter odd [unat j..<length uts]))\<rparr>)"
proof (induction uts j p rule: distribute_loop.induct)
  case (1 uts j p)
  from "1.prems" have len: "length uts < 2 ^ 32" by simp
  show ?case
  proof (cases "j < GetN uts")
    case False
    then have "unat j = length uts"
      using "1.prems" len by (simp add: word_less_nat_alt unat_GetN)
    then show ?thesis using False by simp
  next
    case True
    then have lt: "unat j < length uts"
      using len by (simp add: word_less_nat_alt unat_GetN)
    have suc: "unat (j + 1) = Suc (unat j)" using True by (rule word_inc_unat)
    have get: "Get uts j = Inr (uts ! unat j)" using lt by (simp add: Get_def)
    have upt: "[unat j..<length uts] = unat j # [Suc (unat j)..<length uts]"
      using lt by (simp add: upt_conv_Cons)
    have le': "unat (j + 1) \<le> length uts" using lt suc by simp
    show ?thesis
      apply (subst distribute_loop.simps)
      apply (simp only: True if_True get sum.case)
      apply (subst "1.IH" [OF True get len le'])
      apply (simp add: suc upt word_mod2_even)
      done
  qed
qed

lemma length_filter_even_upt: "length (filter even [0..<n]) = (n + 1) div 2"
  by (induction n) auto

lemma length_filter_odd_upt: "length (filter odd [0..<n]) = n div 2"
  by (induction n) auto

lemma ceil_half: "nat \<lceil>real n / 2\<rceil> = (n + 1) div 2"
  by linarith

lemma floor_half: "nat \<lfloor>real n / 2\<rfloor> = n div 2"
  by linarith

text \<open>
  Claim C2. For a sequence of \<open>N\<close> user terminals (\<open>N\<close> is a \<open>uint32_t\<close>, the result of
  \<open>GetN\<close>) the loop returns; the voice container holds the terminals of the even
  positions and the browsing container those of the odd positions, both in the order
  of the input; the sizes are \<open>ceil(N/2)\<close> and \<open>floor(N/2)\<close>, they add up to \<open>N\<close>, and
  the two counters hold them.
\<close>

theorem distribute_alternates:
  assumes "length uts < 2 ^ 32"
  shows "\<exists>p. distribute uts = Inr p \<and>
    uePhoneCallContainer p = map (nth uts) (filter even [0..<length uts]) \<and>
    ueBrowsingWebContainer p = map (nth uts) (filter odd [0..<length uts]) \<and>
    length (uePhoneCallContainer p) + length (ueBrowsingWebContainer p) = length uts \<and>
    length (uePhoneCallContainer p) = nat \<lceil>real (length uts) / 2\<rceil> \<and>
    length (ueBrowsingWebContainer p) = nat \<lfloor>real (length uts) / 2\<rfloor> \<and>
    unat (ueCountForVoice p) = length (uePhoneCallContainer p) \<and>
    unat (ueCountForBrowsing p) = length (ueBrowsingWebContainer p)"
proof -
  let ?N = "length uts"
  have run: "distribute uts =
      Inr \<lparr>uePhoneCallContainer = map (nth uts) (filter even [0..<?N]),
           ueBrowsingWebContainer = map (nth uts) (filter odd [0..<?N]),
           ueCountForVoice = of_nat ((?N + 1) div 2),
           ueCountForBrowsing = of_nat (?N div 2)\<rparr>"
    using distribute_loop_from [OF assms, of 0 empty_pools]
    by (simp add: distribute_def empty_pools_def length_filter_even_upt length_filter_odd_upt)
  have v: "unat (of_nat (Suc ?N div 2) :: 32 word) = Suc ?N div 2"
    using assms by (simp add: unat_of_nat)
  have b: "unat (of_nat (?N div 2) :: 32 word) = ?N div 2"
    using assms by (simp add: unat_of_nat)
  have sum: "Suc ?N div 2 + ?N div 2 = ?N" by presburger
  show ?thesis
    unfolding run
    by (simp add: length_filter_even_upt length_filter_odd_upt ceil_half floor_half v b sum
        del: of_nat_add of_nat_Suc)
qed

theorem distribute_alternates_witness:
  "length [10, 11, 12, 13, 14 :: nat] < 2 ^ 32 \<and>
   distribute [10, 11, 12, 13, 14 :: nat] =
     Inr \<lparr>uePhoneCallContainer = [10, 12, 14], ueBrowsingWebContainer = [11, 13],
          ueCountForVoice = 3, ueCountForBrowsing = 2\<rparr>"
proof -
  have h: "length [10, 11, 12, 13, 14 :: nat] < 2 ^ 32" by simp
  obtain p where run: "distribute [10, 11, 12, 13, 14 :: nat] = Inr p"
    and v: "uePhoneCallContainer p
              = map (nth [10, 11, 12, 13, 14]) (filter even [0..<length [10, 11, 12, 13, 14 :: nat]])"
    and b: "ueBrowsingWebContainer p
              = map (nth [10, 11, 12, 13, 14]) (filter odd [0..<length [10, 11, 12, 13, 14 :: nat]])"
    and cv: "unat (ueCountForVoice p) = length (uePhoneCallContainer p)"
    and cb: "unat (ueCountForBrowsing p) = length (ueBrowsingWebContainer p)"
    using distribute_alternates [OF h] by blast
  have up: "[0..<5] = [0, 1, 2, 3, 4::nat]" by (simp add: upt_rec)
  have v': "uePhoneCallContainer p = [10, 12, 14]" using v by (simp add: up)
  have b': "ueBrowsingWebContainer p = [11, 13]" using b by (simp add: up)
  have "unat (ueCountForVoice p) = unat (3 :: 32 word)" using cv v' by simp
  then have cv': "ueCountForVoice p = 3" by (simp only: word_unat_eq_iff)
  have "unat (ueCountForBrowsing p) = unat (2 :: 32 word)" using cb b' by simp
  then have cb': "ueCountForBrowsing p = 2" by (simp only: word_unat_eq_iff)
  have "p = \<lparr>uePhoneCallContainer = [10, 12, 14], ueBrowsingWebContainer = [11, 13],
             ueCountForVoice = 3, ueCountForBrowsing = 2\<rparr>"
    using v' b' cv' cb' by simp
  then show ?thesis using run h by simp
qed

subsection \<open>Manual attachment\<close>

lemma attached_append: "attached c (es @ es') = attached c es @ attached c es'"
  by (induction c es rule: attached.induct) simp_all

lemma skipped_append: "skipped c (es @ es') = skipped c es @ skipped c es'"
  by (induction c es rule: skipped.induct) simp_all

text \<open>One slot keeps the invariant, whether it attaches, skips or faults.\<close>

lemma attach_slot_inv:
  assumes "attach_inv sc st"
  shows "attach_inv sc (reached (attach_slot sc vs bs i j st))"
proof (cases "j mod 2 = 0")
  case True
  show ?thesis
  proof (cases "callIndex st < totalUesCall sc")
    case lt: True
    have "callIndex st + 1 \<le> totalUesCall sc" using lt by (rule inc_le)
    moreover have "unat (callIndex st + 1) = Suc (unat (callIndex st))"
      using lt by (rule word_inc_unat)
    ultimately show ?thesis
      using assms True lt
      by (cases "Get vs (callIndex st)")
         (simp_all add: attach_slot_def reached_def attach_inv_def attached_append skipped_append)
  next
    case ge: False
    then have "callIndex st = totalUesCall sc"
      using assms by (simp add: attach_inv_def)
    then show ?thesis
      using assms True ge
      by (cases "Get vs (callIndex st)")
         (simp_all add: attach_slot_def reached_def attach_inv_def attached_append skipped_append)
  qed
next
  case False
  show ?thesis
  proof (cases "browseIndex st < totalUesBrowse sc")
    case lt: True
    have "browseIndex st + 1 \<le> totalUesBrowse sc" using lt by (rule inc_le)
    moreover have "unat (browseIndex st + 1) = Suc (unat (browseIndex st))"
      using lt by (rule word_inc_unat)
    ultimately show ?thesis
      using assms False lt
      by (cases "Get bs (browseIndex st)")
         (simp_all add: attach_slot_def reached_def attach_inv_def attached_append skipped_append)
  next
    case ge: False
    then have "browseIndex st = totalUesBrowse sc"
      using assms by (simp add: attach_inv_def)
    then show ?thesis
      using assms False ge
      by (cases "Get bs (browseIndex st)")
         (simp_all add: attach_slot_def reached_def attach_inv_def attached_append skipped_append)
  qed
qed

text \<open>
  In a state of the loop whose quota of a class is used up, the slot of that class
  reads the pool at the quota, and faults exactly when that index is past the end.
\<close>

lemma exhausted_voice_slot:
  assumes "attach_inv sc st" and "j mod 2 = 0" and "\<not> callIndex st < totalUesCall sc"
  shows "attach_slot sc vs bs i j st =
    (case Get vs (totalUesCall sc) of
       Inl f \<Rightarrow> Inl (f, st)
     | Inr d \<Rightarrow> Inr (st\<lparr>events := events st @ [Skip Voice (unat (totalUesCall sc)) d (unat i)]\<rparr>))"
proof -
  have "callIndex st = totalUesCall sc" using assms by (simp add: attach_inv_def)
  then show ?thesis using assms
    by (cases "Get vs (totalUesCall sc)") (simp_all add: attach_slot_def)
qed

lemma exhausted_browsing_slot:
  assumes "attach_inv sc st" and "j mod 2 \<noteq> 0" and "\<not> browseIndex st < totalUesBrowse sc"
  shows "attach_slot sc vs bs i j st =
    (case Get bs (totalUesBrowse sc) of
       Inl f \<Rightarrow> Inl (f, st)
     | Inr d \<Rightarrow> Inr (st\<lparr>events := events st @ [Skip Browsing (unat (totalUesBrowse sc)) d (unat i)]\<rparr>))"
proof -
  have "browseIndex st = totalUesBrowse sc" using assms by (simp add: attach_inv_def)
  then show ?thesis using assms
    by (cases "Get bs (totalUesBrowse sc)") (simp_all add: attach_slot_def)
qed

lemma attach_slots_inv:
  "attach_inv sc st \<Longrightarrow> attach_inv sc (reached (attach_slots sc vs bs i j st))"
proof (induction sc vs bs i j st rule: attach_slots.induct)
  case (1 sc vs bs i j st)
  show ?case
  proof (cases "j < ucast (numUePerGnb sc)")
    case False
    then show ?thesis using "1.prems" by (simp add: reached_def)
  next
    case True
    have step: "attach_inv sc (reached (attach_slot sc vs bs i j st))"
      using "1.prems" by (rule attach_slot_inv)
    show ?thesis
    proof (cases "attach_slot sc vs bs i j st")
      case (Inl x)
      then show ?thesis using True step
        by (subst attach_slots.simps) (simp add: reached_def)
    next
      case (Inr st')
      then have "attach_inv sc st'" using step by (simp add: reached_def)
      then have "attach_inv sc (reached (attach_slots sc vs bs i (j + 1) st'))"
        using "1.IH" True Inr by simp
      then show ?thesis using True Inr
        by (subst attach_slots.simps) simp
    qed
  qed
qed

lemma attach_gnbs_inv:
  "attach_inv sc st \<Longrightarrow> attach_inv sc (reached (attach_gnbs sc vs bs n i st))"
proof (induction sc vs bs n i st rule: attach_gnbs.induct)
  case (1 sc vs bs n i st)
  show ?case
  proof (cases "i < n")
    case False
    then show ?thesis using "1.prems" by (simp add: reached_def)
  next
    case True
    have step: "attach_inv sc (reached (attach_slots sc vs bs i 0 st))"
      using "1.prems" by (rule attach_slots_inv)
    show ?thesis
    proof (cases "attach_slots sc vs bs i 0 st")
      case (Inl x)
      then show ?thesis using True step
        by (subst attach_gnbs.simps) (simp add: reached_def)
    next
      case (Inr st')
      then have "attach_inv sc st'" using step by (simp add: reached_def)
      then have "attach_inv sc (reached (attach_gnbs sc vs bs n (i + 1) st'))"
        using "1.IH" True Inr by simp
      then show ?thesis using True Inr
        by (subst attach_gnbs.simps) simp
    qed
  qed
qed

lemma attach_all_inv: "attach_inv sc (reached (attach_all sc vs bs n))"
  unfolding attach_all_def
  by (rule attach_gnbs_inv) (simp add: attach_inv_def attach_init_def)

lemma attached_to_count:
  "length (attached_to c k es) = count_list (attached c es) k"
  by (induction c k es rule: attached_to.induct) simp_all

lemma count_list_upt: "count_list [0..<n] k \<le> 1"
  by (induction n) simp_all

text \<open>
  The run of the built-in scenario: three gNB devices, two slots each, quotas 2 and
  3, three devices in each pool. It ends without a fault; the only skipped slot is
  the voice slot of the third gNB.
\<close>

lemma builtin_run:
  "attach_all builtin [v0, v1, v2] [b0, b1, b2] 3 =
     Inr \<lparr>callIndex = 2, browseIndex = 3,
          events = [Attach Voice 0 v0 0, Attach Browsing 0 b0 0, Attach Voice 1 v1 1,
                    Attach Browsing 1 b1 1, Skip Voice 2 v2 2, Attach Browsing 2 b2 2]\<rparr>"
  by (simp add: attach_all_def attach_init_def attach_gnbs.simps attach_slots.simps
      attach_slot_def Get_def builtin_def)

text \<open>
  Claim C1. Whatever the quotas, the number of gNB devices, the slots per gNB and the
  pools, the attachments made by the loop (up to its end, or up to the fault that
  stops it) number at most \<open>totalUesCall\<close> for the voice pool and at most
  \<open>totalUesBrowse\<close> for the browsing pool, and no index \<open>k\<close> of a pool is attached
  more than once, hence to more than one gNB.
\<close>

theorem attach_within_quota:
  "length (attached Voice (events (reached (attach_all sc vs bs n)))) \<le> unat (totalUesCall sc) \<and>
   length (attached Browsing (events (reached (attach_all sc vs bs n)))) \<le> unat (totalUesBrowse sc) \<and>
   length (attached_to c k (events (reached (attach_all sc vs bs n)))) \<le> 1"
proof -
  let ?st = "reached (attach_all sc vs bs n)"
  have inv: "attach_inv sc ?st" by (rule attach_all_inv)
  have v: "attached Voice (events ?st) = [0..<unat (callIndex ?st)]"
    and b: "attached Browsing (events ?st) = [0..<unat (browseIndex ?st)]"
    and cv: "callIndex ?st \<le> totalUesCall sc"
    and cb: "browseIndex ?st \<le> totalUesBrowse sc"
    using inv by (simp_all add: attach_inv_def)
  have "attached c (events ?st) = [0..<unat (callIndex ?st)] \<or>
        attached c (events ?st) = [0..<unat (browseIndex ?st)]"
    using v b by (cases c) simp_all
  then have "count_list (attached c (events ?st)) k \<le> 1"
    using count_list_upt by metis
  then show ?thesis
    using v b cv cb by (simp add: attached_to_count word_le_nat_alt)
qed

theorem attach_within_quota_witness:
  "attached Voice (events (reached (attach_all builtin [10, 12, 14 :: nat] [11, 13, 15] 3))) = [0, 1] \<and>
   attached Browsing (events (reached (attach_all builtin [10, 12, 14 :: nat] [11, 13, 15] 3))) = [0, 1, 2] \<and>
   length (attached Voice (events (reached (attach_all builtin [10, 12, 14 :: nat] [11, 13, 15] 3))))
     \<le> unat (totalUesCall builtin) \<and>
   length (attached Browsing (events (reached (attach_all builtin [10, 12, 14 :: nat] [11, 13, 15] 3))))
     \<le> unat (totalUesBrowse builtin) \<and>
   attached_to Browsing 1 (events (reached (attach_all builtin [10, 12, 14 :: nat] [11, 13, 15] 3))) = [1] \<and>
   length (attached_to Browsing 1 (events (reached (attach_all builtin [10, 12, 14 :: nat] [11, 13, 15] 3))))
     \<le> 1"
  using attach_within_quota [of builtin "[10, 12, 14 :: nat]" "[11, 13, 15]" 3 Browsing 1]
  by (simp add: builtin_run reached_def)

text \<open>
  Claim C9. A skipped slot reads the pool at the index equal to the quota of its
  class. In the built-in scenario (three gNB devices, two slots each, quotas 2 and 3,
  three devices in each pool) the loop ends without a fault, its only such read is at
  index 2 of the voice pool, and every such read is below the size of its pool.
\<close>

theorem skip_read_at_quota:
  "set (skipped Voice (events (reached (attach_all sc vs bs n)))) \<subseteq> {unat (totalUesCall sc)} \<and>
   set (skipped Browsing (events (reached (attach_all sc vs bs n)))) \<subseteq> {unat (totalUesBrowse sc)} \<and>
   (\<exists>st. attach_all builtin [v0, v1, v2] [b0, b1, b2] (ucast (numGnb builtin)) = Inr st \<and>
      skipped Voice (events st) = [2] \<and> skipped Browsing (events st) = [] \<and>
      (\<forall>k \<in> set (skipped Voice (events st)). k < length [v0, v1, v2]) \<and>
      (\<forall>k \<in> set (skipped Browsing (events st)). k < length [b0, b1, b2]))"
proof -
  have "attach_inv sc (reached (attach_all sc vs bs n))" by (rule attach_all_inv)
  moreover have "ucast (numGnb builtin) = (3 :: 32 word)" by (simp add: builtin_def)
  ultimately show ?thesis
    by (simp add: attach_inv_def builtin_run)
qed

theorem skip_read_at_quota_witness:
  "skipped Voice (events (reached (attach_all (builtin\<lparr>totalUesBrowse := 2\<rparr>)
      [10, 12, 14 :: nat] [11, 13, 15] 3))) = [2] \<and>
   skipped Browsing (events (reached (attach_all (builtin\<lparr>totalUesBrowse := 2\<rparr>)
      [10, 12, 14 :: nat] [11, 13, 15] 3))) = [2] \<and>
   set (skipped Browsing (events (reached (attach_all (builtin\<lparr>totalUesBrowse := 2\<rparr>)
      [10, 12, 14 :: nat] [11, 13, 15] 3)))) \<subseteq> {unat (totalUesBrowse (builtin\<lparr>totalUesBrowse := 2\<rparr>))} \<and>
   (\<exists>st. attach_all builtin [10, 12, 14 :: nat] [11, 13, 15] (ucast (numGnb builtin)) = Inr st \<and>
      skipped Voice (events st) = [2] \<and>
      (\<forall>k \<in> set (skipped Voice (events st)). k < length [10, 12, 14 :: nat]))"
proof -
  have run: "attach_all (builtin\<lparr>totalUesBrowse := 2\<rparr>) [10, 12, 14 :: nat] [11, 13, 15] 3 =
     Inr \<lparr>callIndex = 2, browseIndex = 2,
          events = [Attach Voice 0 10 0, Attach Browsing 0 11 0, Attach Voice 1 12 1,
                    Attach Browsing 1 13 1, Skip Voice 2 14 2, Skip Browsing 2 15 2]\<rparr>"
    by (simp add: attach_all_def attach_init_def attach_gnbs.simps attach_slots.simps
        attach_slot_def Get_def builtin_def)
  show ?thesis
    using skip_read_at_quota [of "builtin\<lparr>totalUesBrowse := 2\<rparr>" "[10, 12, 14 :: nat]" "[11, 13, 15]" 3
        "10 :: nat" 12 14 11 13 15]
    by (auto simp add: run reached_def)
qed

subsection \<open>Startup checks\<close>

text \<open>
  What the four checks amount to: each frequency test asks for a value both below
  2 GHz and above 100 GHz, which no value is, so only the other two can abort.
\<close>

lemma startup_checks_abort_iff:
  "(startup_checks sc = Inl Aborted) =
     (centralFrequencyBand1 sc = centralFrequencyBand2 sc \<or> numTotalUe sc < 5 \<or> numGnb sc < 2)"
  by (simp add: startup_checks_def)

text \<open>
  Claim C7. The claim has the startup checks abort when a carrier frequency lies
  outside the range from 2 GHz to 100 GHz. With the first carrier at 1 GHz and every
  other constant as in the source, the frequency is outside the range, the other
  conditions of the claim do not hold, and the checks pass.
\<close>

theorem startup_checks_pass_out_of_range:
  "centralFrequencyBand1 (builtin\<lparr>centralFrequencyBand1 := 1000000000\<rparr>) < 2000000000 \<and>
   centralFrequencyBand1 (builtin\<lparr>centralFrequencyBand1 := 1000000000\<rparr>)
     \<noteq> centralFrequencyBand2 (builtin\<lparr>centralFrequencyBand1 := 1000000000\<rparr>) \<and>
   \<not> numTotalUe (builtin\<lparr>centralFrequencyBand1 := 1000000000\<rparr>) < 5 \<and>
   \<not> numGnb (builtin\<lparr>centralFrequencyBand1 := 1000000000\<rparr>) < 2 \<and>
   startup_checks (builtin\<lparr>centralFrequencyBand1 := 1000000000\<rparr>) = Inr ()"
  by (simp add: startup_checks_def builtin_def numTotalUe_def)

subsection \<open>Transmit power of the gNBs\<close>

text \<open>The loop never writes the power of part 0 of a gNB other than the first.\<close>

lemma gnb_loop_part0_power:
  "k \<noteq> 0 \<Longrightarrow> TxPower (gnb_loop sc n i st (k, 0)) = TxPower (st (k, 0))"
proof (induction sc n i st rule: gnb_loop.induct)
  case (1 sc n i st)
  show ?case
  proof (cases "i < n")
    case True
    have "TxPower (gnb_loop sc n (i + 1) (gnb_body sc i st) (k, 0))
            = TxPower (gnb_body sc i st (k, 0))"
      using "1.IH" True "1.prems" by simp
    also have "\<dots> = TxPower (st (k, 0))"
      using "1.prems" by (simp add: gnb_body_def SetTxPower_def SetNumerology_def Let_def)
    finally show ?thesis using True by (subst gnb_loop.simps) simp
  next
    case False
    then show ?thesis by simp
  qed
qed

text \<open>
  Claim C3. The claim has every gNB carry, on every bandwidth part, the power of that
  part's share of the bandwidth. In the built-in scenario the loop writes that power
  on part 0 of the first gNB and on part 1 of every gNB, and the numerology on part 0
  of every gNB; the power of part 0 of the second and of the third gNB is never
  written.
\<close>

theorem gnb_power_part0_unset:
  "TxPower (configure_gnbs builtin (0, 0)) = Some (txPower builtin) \<and>
   TxPower (configure_gnbs builtin (1, 0)) = None \<and>
   TxPower (configure_gnbs builtin (2, 0)) = None \<and>
   Numerology (configure_gnbs builtin (1, 0)) = Some 4 \<and>
   Numerology (configure_gnbs builtin (2, 0)) = Some 4 \<and>
   TxPower (configure_gnbs builtin (1, 1)) = Some (txPower builtin) \<and>
   TxPower (configure_gnbs builtin (2, 1)) = Some (txPower builtin) \<and>
   txPower builtin = 10 * log 10 ((50000000 / (50000000 + 50000000)) * (10 powr (35 / 10)))"
proof -
  have n: "ucast (numGnb builtin) = (3 :: 32 word)" by (simp add: builtin_def)
  have unset: "TxPower (configure_gnbs builtin (k, 0)) = None" if "k \<noteq> 0" for k
    using gnb_loop_part0_power [OF that, of builtin 3 0 installed]
    by (simp add: configure_gnbs_def n installed_def)
  have written: "TxPower (configure_gnbs builtin (0, 0)) = Some (txPower builtin) \<and>
      Numerology (configure_gnbs builtin (1, 0)) = Some 4 \<and>
      Numerology (configure_gnbs builtin (2, 0)) = Some 4 \<and>
      TxPower (configure_gnbs builtin (1, 1)) = Some (txPower builtin) \<and>
      TxPower (configure_gnbs builtin (2, 1)) = Some (txPower builtin)"
    by (simp add: configure_gnbs_def n gnb_loop.simps gnb_body_def SetTxPower_def
        SetNumerology_def installed_def Let_def)
      (simp add: builtin_def)
  have p: "txPower builtin = 10 * log 10 ((50000000 / (50000000 + 50000000)) * (10 powr (35 / 10)))"
    by (simp add: txPower_def totalBandwidth_def builtin_def)
  show ?thesis using unset [of 1] unset [of 2] written p by simp
qed

text \<open>
  Claim C4. The claim has the powers of two parts differ by \<open>10 * log10 (b1 / b2)\<close>.
  With a first band of 100 MHz, a second band of 50 MHz and every other constant as
  in the source, both parts of the first gNB carry the same power, computed from the
  first band, so the difference is 0 and not \<open>10 * log10 2\<close>.
\<close>

theorem gnb_power_same_for_both_parts:
  "TxPower (configure_gnbs (builtin\<lparr>bandwidthBand1 := 100000000\<rparr>) (0, 0))
     = Some (txPower (builtin\<lparr>bandwidthBand1 := 100000000\<rparr>)) \<and>
   TxPower (configure_gnbs (builtin\<lparr>bandwidthBand1 := 100000000\<rparr>) (0, 1))
     = Some (txPower (builtin\<lparr>bandwidthBand1 := 100000000\<rparr>)) \<and>
   txPower (builtin\<lparr>bandwidthBand1 := 100000000\<rparr>) - txPower (builtin\<lparr>bandwidthBand1 := 100000000\<rparr>)
     \<noteq> 10 * log 10 (bandwidthBand1 (builtin\<lparr>bandwidthBand1 := 100000000\<rparr>)
                      / bandwidthBand2 (builtin\<lparr>bandwidthBand1 := 100000000\<rparr>))"
proof -
  define sc where "sc = builtin\<lparr>bandwidthBand1 := 100000000\<rparr>"
  have n: "ucast (numGnb sc) = (3 :: 32 word)" by (simp add: sc_def builtin_def)
  have p0: "TxPower (configure_gnbs sc (0, 0)) = Some (txPower sc)"
    by (simp add: configure_gnbs_def n gnb_loop.simps gnb_body_def SetTxPower_def
        SetNumerology_def installed_def Let_def)
  have p1: "TxPower (configure_gnbs sc (0, 1)) = Some (txPower sc)"
    by (simp add: configure_gnbs_def n gnb_loop.simps gnb_body_def SetTxPower_def
        SetNumerology_def installed_def Let_def)
  have ratio: "bandwidthBand1 sc / bandwidthBand2 sc = 2" by (simp add: sc_def builtin_def)
  have "(0::real) < log 10 2" by simp
  then have "txPower sc - txPower sc \<noteq> 10 * log 10 (bandwidthBand1 sc / bandwidthBand2 sc)"
    unfolding ratio by linarith
  then show ?thesis using p0 p1 unfolding sc_def by blast
qed

subsection \<open>Per-flow statistics\<close>

text \<open>The packet loss in closed form: one quotient, whatever the counters.\<close>

lemma packet_loss_eq:
  "packet_loss tx rx =
     (if tx = 0 then (if rx = 0 then (NaN, {FE_INVALID}) else (PInf, {FE_DIVBYZERO}))
      else (Finite (real (unat (tx - rx)) / real (unat tx) * 100), {}))"
  by (simp add: packet_loss_def fp_then_def of_uint_def unat_eq_0 unat_gt_0 del: of_nat_unat)

text \<open>
  Claim C5, as stated, fails. For a flow whose counters are all zero the loss written
  is NaN and the invalid-operation exception is raised: the division \<open>0.0 / 0\<close> was
  performed, and no branch flagged the record.
\<close>

theorem packet_loss_divides_by_zero:
  "map PacketLoss (blocks (flow_statistics (9 / 100)
      [\<lparr>txPackets = 0, rxPackets = 0, txBytes = 0, rxBytes = 0,
        delaySum = 0, jitterSum = 0\<rparr>])) = [NaN] \<and>
   fp_raised (flow_statistics (9 / 100)
      [\<lparr>txPackets = 0, rxPackets = 0, txBytes = 0, rxBytes = 0,
        delaySum = 0, jitterSum = 0\<rparr>]) = {FE_INVALID}"
  by (simp add: flow_statistics_def flow_acc0_def flow_body_def packet_loss_eq mbps_def fp_then_def
      of_uint_def lost_packets_def)

text \<open>
  Claim C5, amended. For every flow with \<open>txPackets = 0\<close> the body of the loop
  performs the division by \<open>txPackets\<close> like for any other flow: the loss it writes is
  NaN when \<open>rxPackets\<close> is 0 too, and plus infinity otherwise (the unsigned difference
  is then positive), and the matching IEEE exception is raised.
\<close>

theorem packet_loss_zero_tx:
  assumes "txPackets fs = 0"
  shows "PacketLoss (last (written (flow_body D fs acc)))
           = (if rxPackets fs = 0 then NaN else PInf) \<and>
         (if rxPackets fs = 0 then FE_INVALID else FE_DIVBYZERO) \<in> raised (flow_body D fs acc)"
proof -
  obtain offered e1 where m: "mbps D (txBytes fs) = (offered, e1)"
    by (cases "mbps D (txBytes fs)")
  obtain thr e3 where t: "mbps D (rxBytes fs) = (thr, e3)"
    by (cases "mbps D (rxBytes fs)")
  obtain dly e4 where d: "per_packet_ms (delaySum fs) (rxPackets fs) = (dly, e4)"
    by (cases "per_packet_ms (delaySum fs) (rxPackets fs)")
  obtain jit e5 where j: "per_packet_ms (jitterSum fs) (rxPackets fs) = (jit, e5)"
    by (cases "per_packet_ms (jitterSum fs) (rxPackets fs)")
  show ?thesis
    using assms by (simp add: flow_body_def m t d j packet_loss_eq word_greater_zero_iff)
qed

theorem packet_loss_zero_tx_witness:
  "txPackets \<lparr>txPackets = 0, rxPackets = 5, txBytes = 0, rxBytes = 125,
              delaySum = 1 / 100, jitterSum = 0\<rparr> = 0 \<and>
   PacketLoss (last (written (flow_body (9 / 100)
      \<lparr>txPackets = 0, rxPackets = 5, txBytes = 0, rxBytes = 125,
        delaySum = 1 / 100, jitterSum = 0\<rparr> flow_acc0))) = PInf \<and>
   FE_DIVBYZERO \<in> raised (flow_body (9 / 100)
      \<lparr>txPackets = 0, rxPackets = 5, txBytes = 0, rxBytes = 125,
        delaySum = 1 / 100, jitterSum = 0\<rparr> flow_acc0)"
  using packet_loss_zero_tx [of "\<lparr>txPackets = 0, rxPackets = 5, txBytes = 0, rxBytes = 125,
      delaySum = 1 / 100, jitterSum = 0\<rparr>" "9 / 100" flow_acc0]
  by simp

text \<open>
  Claim C6, as stated, fails. With no flow at all the invalid-operation exception is
  raised: the two means were obtained by dividing the sums, 0.0, by the number of
  flows, 0.
\<close>

theorem empty_flows_divide_by_zero:
  "fp_raised (flow_statistics (9 / 100) []) = {FE_INVALID}"
  by (simp add: flow_statistics_def flow_acc0_def)

text \<open>
  Claim C6, amended. Each mean is the quotient of the accumulated sum by the number
  of flows, for every list of flows; for the empty list that quotient is \<open>0.0 / 0\<close>,
  so both means are NaN, by the division and not by a branch.
\<close>

theorem empty_flows_mean_nan:
  "meanFlowThroughput (flow_statistics D stats)
     = fst (fp_div (averageFlowThroughput (flow_loop D stats flow_acc0))
                   (Finite (real (length stats)))) \<and>
   meanFlowDelay (flow_statistics D stats)
     = fst (fp_div (averageFlowDelay (flow_loop D stats flow_acc0))
                   (Finite (real (length stats)))) \<and>
   flow_statistics D [] =
     \<lparr>blocks = [], meanFlowThroughput = NaN, meanFlowDelay = NaN, fp_raised = {FE_INVALID}\<rparr>"
proof -
  obtain mt e1 where a: "fp_div (averageFlowThroughput (flow_loop D stats flow_acc0))
                           (Finite (real (length stats))) = (mt, e1)"
    by (cases "fp_div (averageFlowThroughput (flow_loop D stats flow_acc0))
                 (Finite (real (length stats)))")
  obtain md e2 where b: "fp_div (averageFlowDelay (flow_loop D stats flow_acc0))
                           (Finite (real (length stats))) = (md, e2)"
    by (cases "fp_div (averageFlowDelay (flow_loop D stats flow_acc0))
                 (Finite (real (length stats)))")
  have "flow_statistics D [] =
     \<lparr>blocks = [], meanFlowThroughput = NaN, meanFlowDelay = NaN, fp_raised = {FE_INVALID}\<rparr>"
    by (simp add: flow_statistics_def flow_acc0_def)
  then show ?thesis
    by (simp add: flow_statistics_def Let_def a b)
qed

text \<open>
  Claim C10. The lost packets are the difference of the two counters on their
  unsigned type of \<open>w\<close> bits: the mathematical difference when \<open>rxPackets \<le> txPackets\<close>;
  otherwise that difference plus \<open>2 ^ w\<close>, a positive number above \<open>txPackets\<close>, which
  makes the packet loss exceed 100 percent (it is plus infinity when \<open>txPackets\<close> is
  0). Neither the lost packets nor the packet loss is ever negative.
\<close>

theorem lost_packets_wraps:
  fixes tx rx :: "'w::len word"
  shows "(rx \<le> tx \<longrightarrow> uint (lost_packets tx rx) = uint tx - uint rx) \<and>
   (tx < rx \<longrightarrow>
      uint (lost_packets tx rx) = uint tx - uint rx + 2 ^ LENGTH('w) \<and>
      uint tx < uint (lost_packets tx rx) \<and>
      dbl_less (Finite 100) (fst (packet_loss tx rx))) \<and>
   0 \<le> uint (lost_packets tx rx) \<and>
   \<not> dbl_less (fst (packet_loss tx rx)) (Finite 0)"
proof -
  have sub: "uint (tx - rx) = (if uint rx \<le> uint tx then uint tx - uint rx
                               else uint tx - uint rx + 2 ^ LENGTH('w))"
    by (rule uint_sub_if')
  have a: "uint (lost_packets tx rx) = uint tx - uint rx" if "rx \<le> tx"
  proof -
    have "uint rx \<le> uint tx" using that by (simp add: word_le_def)
    then show ?thesis unfolding lost_packets_def sub by simp
  qed
  have b: "uint (lost_packets tx rx) = uint tx - uint rx + 2 ^ LENGTH('w)" if "tx < rx"
  proof -
    have "\<not> uint rx \<le> uint tx" using that by (simp add: word_less_def)
    then show ?thesis unfolding lost_packets_def sub by simp
  qed
  have c: "uint tx < uint (lost_packets tx rx)" if "tx < rx"
  proof -
    have "uint rx < 2 ^ LENGTH('w)" by (rule uint_bounded)
    then show ?thesis unfolding b [OF that] by linarith
  qed
  have d: "dbl_less (Finite 100) (fst (packet_loss tx rx))" if "tx < rx"
  proof -
    have "tx < tx - rx" using c [OF that] by (simp add: word_less_def lost_packets_def)
    then have lt: "unat tx < unat (tx - rx)" by (simp add: word_less_nat_alt)
    show ?thesis
    proof (cases "tx = 0")
      case True
      then have "rx \<noteq> 0" using that by auto
      then show ?thesis using True by (simp add: packet_loss_eq)
    next
      case False
      then have pos: "0 < real (unat tx)" by (simp add: unat_gt_0 del: of_nat_unat)
      define q where "q = real (unat (tx - rx)) / real (unat tx)"
      have "real (unat tx) < real (unat (tx - rx))" using lt by (simp del: of_nat_unat)
      then have "1 < q"
        unfolding q_def using pos by (simp del: of_nat_unat)
      then have "100 < q * 100" by simp
      moreover have "packet_loss tx rx = (Finite (q * 100), {})"
        unfolding q_def using False by (simp add: packet_loss_eq del: of_nat_unat)
      ultimately show ?thesis by simp
    qed
  qed
  have e: "\<not> dbl_less (fst (packet_loss tx rx)) (Finite 0)"
  proof (cases "tx = 0")
    case True
    then show ?thesis by (simp add: packet_loss_eq)
  next
    case False
    define q where "q = real (unat (tx - rx)) / real (unat tx)"
    have "0 \<le> q" unfolding q_def by (simp del: of_nat_unat)
    then have "\<not> q * 100 < 0" by simp
    moreover have "packet_loss tx rx = (Finite (q * 100), {})"
      unfolding q_def using False by (simp add: packet_loss_eq del: of_nat_unat)
    ultimately show ?thesis by simp
  qed
  show ?thesis using a b c d e by simp
qed

theorem lost_packets_wraps_witness:
  "(3 :: 32 word) \<le> 10 \<and> uint (lost_packets (10 :: 32 word) 3) = 7 \<and>
   (5 :: 32 word) < 7 \<and> uint (lost_packets (5 :: 32 word) 7) = 4294967294 \<and>
   uint (5 :: 32 word) < uint (lost_packets (5 :: 32 word) 7) \<and>
   dbl_less (Finite 100) (fst (packet_loss (5 :: 32 word) 7))"
  using lost_packets_wraps [where tx = "10 :: 32 word" and rx = 3]
    lost_packets_wraps [where tx = "5 :: 32 word" and rx = 7]
  by simp

subsection \<open>Exit status\<close>

text \<open>The two comparisons of the source around a reference are the tolerance band.\<close>

lemma in_band:
  "(dbl_le (Finite (r - t)) v \<and> dbl_le v (Finite (r + t))) =
     (case v of Finite x \<Rightarrow> \<bar>x - r\<bar> \<le> t | _ \<Rightarrow> False)"
  by (cases v) (auto simp add: abs_le_iff)

lemma regression_exit_spec:
  "(regression_exit argc n thr dly = 0) =
     (case spec_baseline argc n of None \<Rightarrow> True
      | Some (rt, rd) \<Rightarrow> spec_in_band rt thr \<and> spec_in_band rd dly)"
  by (simp add: regression_exit_def spec_baseline_def spec_in_band_def EXIT_SUCCESS_def
      EXIT_FAILURE_def Let_def in_band [symmetric] del: dbl_le.simps)

text \<open>
  Claim C8. From the opening of the output file on, \<open>main\<close> returns 0 exactly when the
  file is open and either no baseline is configured or both means lie within the
  tolerance bands of the configured baseline; in every other case, a failed baseline
  check or a file that cannot be opened, it returns a non-zero status.
\<close>

theorem exit_status_refines:
  "(report_exit is_open argc sc D stats = 0) =
     (is_open \<and>
      (case spec_baseline argc (numUePerGnb sc) of None \<Rightarrow> True
       | Some (rt, rd) \<Rightarrow>
           spec_in_band rt (meanFlowThroughput (flow_statistics D stats)) \<and>
           spec_in_band rd (meanFlowDelay (flow_statistics D stats))))"
  by (simp add: report_exit_def regression_exit_spec)

theorem exit_status_refines_witness:
  "report_exit True 0 builtin (9 / 100)
      [\<lparr>txPackets = 1000, rxPackets = 1000, txBytes = 632909, rxBytes = 632909,
        delaySum = 0.553292, jitterSum = 0\<rparr>] = 0 \<and>
   spec_baseline 0 (numUePerGnb builtin) = Some (56.258560, 0.553292) \<and>
   report_exit True 0 builtin (9 / 100) [] \<noteq> 0 \<and>
   report_exit True 1 builtin (9 / 100) [] = 0 \<and>
   spec_baseline 1 (numUePerGnb builtin) = None \<and>
   report_exit False 1 builtin (9 / 100) [] \<noteq> 0"
proof -
  let ?fs = "\<lparr>txPackets = 1000, rxPackets = 1000, txBytes = 632909, rxBytes = 632909,
              delaySum = 0.553292, jitterSum = 0\<rparr>"
  show ?thesis
    using exit_status_refines [of True 0 builtin "9 / 100" "[?fs]"]
      exit_status_refines [of True 0 builtin "9 / 100" "[]"]
      exit_status_refines [of True 1 builtin "9 / 100" "[]"]
      exit_status_refines [of False 1 builtin "9 / 100" "[]"]
    by (simp add: spec_baseline_def spec_in_band_def builtin_def
        flow_statistics_def flow_acc0_def flow_body_def packet_loss_eq mbps_def
        per_packet_ms_def fp_then_def of_uint_def lost_packets_def)
qed

end
